theory Spec2Isabelle
  imports Complex_Main
begin

section \<open>The sliding-window rate limiter (rate\_limiter.py)\<close>

text \<open>
  \<open>SimpleRateLimiter\<close> holds the configured limit and a dictionary from client key to
  the list of request timestamps. \<open>time.time()\<close> is a Python float; timestamps are
  modelled as reals, and every clock reading is an argument of the function that
  takes it. \<open>is_rate_limited\<close> reads the clock once; \<open>_cleanup\<close> reads it again, so
  the model of \<open>is_rate_limited\<close> takes both readings.
\<close>

record limiter =
  requests_per_minute :: int
  requests :: "string \<rightharpoonup> real list"

text \<open>\<open>SimpleRateLimiter(requests_per_minute=30)\<close>: the constructor and its default.\<close>

definition new_limiter :: "int \<Rightarrow> limiter" where
  "new_limiter n = \<lparr>requests_per_minute = n, requests = Map.empty\<rparr>"

definition default_limiter :: limiter where
  "default_limiter = new_limiter 30"

text \<open>Python's \<open>x % m\<close> on floats for a positive \<open>m\<close>: the remainder of floor division.\<close>

definition py_fmod :: "real \<Rightarrow> real \<Rightarrow> real" where
  "py_fmod x m = x - m * of_int \<lfloor>x / m\<rfloor>"

text \<open>
  \<open>_cleanup\<close>: every key whose list is empty, or whose \<open>max(timestamps)\<close> lies more
  than 300 seconds before the clock reading, is deleted.
\<close>

definition cleanup :: "limiter \<Rightarrow> real \<Rightarrow> limiter" where
  "cleanup s current_time =
     s\<lparr>requests := (\<lambda>ip. case requests s ip of
          None \<Rightarrow> None
        | Some timestamps \<Rightarrow>
            (case timestamps of
               [] \<Rightarrow> None
             | t # rest \<Rightarrow>
                 if current_time - fold max rest t > 300 then None else Some timestamps))\<rparr>"

text \<open>
  \<open>is_rate_limited\<close> returns \<open>True\<close> when the request must be rejected. The second
  component is the limiter after the call.
\<close>

definition is_rate_limited :: "limiter \<Rightarrow> string \<Rightarrow> real \<Rightarrow> real \<Rightarrow> bool \<times> limiter" where
  "is_rate_limited s ip current_time cleanup_time =
     (let stored = (case requests s ip of None \<Rightarrow> [] | Some l \<Rightarrow> l);
          kept = filter (\<lambda>ts. current_time - ts < 60) stored;
          s1 = s\<lparr>requests := (requests s)(ip \<mapsto> kept)\<rparr>
      in if int (length kept) \<ge> requests_per_minute s then (True, s1)
         else
           let s2 = s\<lparr>requests := (requests s)(ip \<mapsto> kept @ [current_time])\<rparr>
           in if py_fmod current_time 300 < 1 then (False, cleanup s2 cleanup_time)
              else (False, s2))"

text \<open>
  A sequence of calls for one key, each with its two clock readings; the answers are
  collected in call order.
\<close>

fun is_rate_limited_seq :: "limiter \<Rightarrow> string \<Rightarrow> (real \<times> real) list \<Rightarrow> bool list \<times> limiter" where
  "is_rate_limited_seq s ip [] = ([], s)"
| "is_rate_limited_seq s ip ((t, c) # rest) =
     (let (b, s') = is_rate_limited s ip t c;
          (bs, s'') = is_rate_limited_seq s' ip rest
      in (b # bs, s''))"


section \<open>The upstream client (client.py)\<close>

subsection \<open>Python values, exceptions and the outside world\<close>

text \<open>
  A parsed JSON body is a Python value: \<open>None\<close>, a bool, an int, a string, a list or a
  dictionary with string keys (kept as an association list in document order). JSON
  numbers with a fraction are not modelled.
\<close>

datatype pyval =
    PNone
  | PBool bool
  | PInt int
  | PStr string
  | PList "pyval list"
  | PDict "(string \<times> pyval) list"

text \<open>
  The exceptions that leave \<open>_make_request\<close> and \<open>get_all_resources\<close>.
  \<open>NotFoundError\<close>, \<open>RateLimitError\<close>, \<open>ServerError\<close> and \<open>APIError\<close> are the classes of
  client.py with their constructor arguments; \<open>ClientError\<close> and \<open>TimeoutError\<close> are
  \<open>aiohttp.ClientError\<close> and \<open>asyncio.TimeoutError\<close>; the others are Python's built-in
  exceptions raised by \<open>int(...)\<close>, by a missing method or by a non-iterable operand.
\<close>

datatype error =
    RuntimeError
  | NotFoundError string "int option"
  | RateLimitError int
  | ServerError
  | APIError int pyval
  | ClientError
  | TimeoutError
  | ValueError
  | AttributeError
  | TypeError
  | IndexError

text \<open>
  What \<open>await response.json()\<close> does with a body: it parses, or raises
  \<open>ContentTypeError\<close> (an \<open>aiohttp.ClientError\<close>), or raises a JSON decoding error (a
  \<open>ValueError\<close>).
\<close>

datatype body = Json pyval | BodyClientError | BodyValueError

text \<open>
  One HTTP attempt ends in a response (status, the value of the \<open>Retry-After\<close> header
  if present, body) or in an exception of \<open>session.get\<close>.
\<close>

datatype outcome =
    Response int "string option" body
  | ConnectionFailed
  | TimedOut

text \<open>
  The upstream is a function from the number of HTTP attempts made so far and the
  requested URL to the outcome of the attempt. The world records that number and the
  trace of effects: every \<open>session.get\<close> and every \<open>asyncio.sleep\<close>, in order.
\<close>

type_synonym upstream = "nat \<Rightarrow> string \<Rightarrow> outcome"

datatype event = Get string | Sleep int

record world =
  calls :: nat
  trace :: "event list"

definition http_get :: "string \<Rightarrow> world \<Rightarrow> world" where
  "http_get url w = w\<lparr>calls := Suc (calls w), trace := trace w @ [Get url]\<rparr>"

definition sleep :: "int \<Rightarrow> world \<Rightarrow> world" where
  "sleep seconds w = w\<lparr>trace := trace w @ [Sleep seconds]\<rparr>"

record client =
  session :: bool
  max_retries :: int
  timeout :: int

text \<open>\<open>RickAndMortyClient(session, max_retries=3, timeout=10)\<close> with a session.\<close>

definition default_client :: client where
  "default_client = \<lparr>session = True, max_retries = 3, timeout = 10\<rparr>"

definition BASE_URL :: string where
  "BASE_URL = ''https://rickandmortyapi.com/api''"

subsection \<open>String operations of Python used by the client\<close>

text \<open>
  A character is a code point below 256; text with other code points is outside the
  model. \<open>is_digit\<close> is the decimal digits \<open>0\<close> to \<open>9\<close>, the only characters below 256 that
  \<open>int\<close> reads as digits. \<open>is_unicode_digit\<close> is what \<open>str.isdigit\<close> accepts below 256: the
  decimal digits and the superscripts two, three and one (\<open>0xB2\<close>, \<open>0xB3\<close>, \<open>0xB9\<close>).
  \<open>is_space\<close> is the whitespace that \<open>int\<close> drops around a number: tab to carriage return,
  space, and the two characters \<open>0x85\<close> and \<open>0xA0\<close>; the separators \<open>0x1C\<close> to \<open>0x1F\<close> are
  not dropped.
\<close>

definition is_digit :: "char \<Rightarrow> bool" where
  "is_digit c = (c \<in> set ''0123456789'')"

definition is_unicode_digit :: "char \<Rightarrow> bool" where
  "is_unicode_digit c = (is_digit c \<or> c \<in> set [CHR 0xB2, CHR 0xB3, CHR 0xB9])"

definition is_space :: "char \<Rightarrow> bool" where
  "is_space c = (c \<in> set [CHR '' '', CHR 0x09, CHR 0x0A, CHR 0x0B, CHR 0x0C, CHR 0x0D,
                            CHR 0x85, CHR 0xA0])"

text \<open>\<open>s.split(sep)\<close> for a one-character separator: never empty.\<close>

fun split_on :: "char \<Rightarrow> string \<Rightarrow> string list" where
  "split_on sep [] = [[]]"
| "split_on sep (c # cs) =
     (if c = sep then [] # split_on sep cs
      else (case split_on sep cs of
              [] \<Rightarrow> [[c]]
            | part # parts \<Rightarrow> (c # part) # parts))"

text \<open>\<open>s.isdigit()\<close>: not empty, and every character a digit in the sense of Unicode.\<close>

definition isdigit :: "string \<Rightarrow> bool" where
  "isdigit s = (s \<noteq> [] \<and> list_all is_unicode_digit s)"

text \<open>
  The interpreter's limit on the number of digits in a conversion between \<open>int\<close> and
  decimal text, at its default (\<open>sys.get_int_max_str_digits()\<close>).
\<close>

definition int_max_str_digits :: nat where
  "int_max_str_digits = 4300"

definition nat_of_digits :: "string \<Rightarrow> nat" where
  "nat_of_digits ds = foldl (\<lambda>a c. 10 * a + (of_char c - 48)) 0 ds"

text \<open>
  A digit string in which single underscores may separate digits, as \<open>int\<close> accepts;
  the result is the string without the underscores.
\<close>

fun digit_groups :: "string \<Rightarrow> string option" where
  "digit_groups [] = None"
| "digit_groups [c] = (if is_digit c then Some [c] else None)"
| "digit_groups (c # d # rest) =
     (if is_digit c then
        (if d = CHR ''_'' then map_option ((#) c) (digit_groups rest)
         else map_option ((#) c) (digit_groups (d # rest)))
      else None)"

text \<open>The number written by the digits, unless there are more digits than the limit.\<close>

definition decimal_value :: "string \<Rightarrow> nat option" where
  "decimal_value s =
     (case digit_groups s of
        None \<Rightarrow> None
      | Some ds \<Rightarrow> if length ds > int_max_str_digits then None else Some (nat_of_digits ds))"

text \<open>
  \<open>int(s)\<close> for a string: surrounding whitespace is dropped, an optional sign is read,
  then decimal digits. \<open>None\<close> is \<open>ValueError\<close>.
\<close>

definition py_int :: "string \<Rightarrow> int option" where
  "py_int s =
     (let t = rev (dropWhile is_space (rev (dropWhile is_space s)))
      in case t of
           [] \<Rightarrow> None
         | c # r \<Rightarrow>
             if c = CHR ''-'' then map_option (\<lambda>n. - int n) (decimal_value r)
             else if c = CHR ''+'' then map_option int (decimal_value r)
             else map_option int (decimal_value t))"

text \<open>
  \<open>str(n)\<close> for an int, as an f-string renders it: the decimal digits with a minus sign
  for a negative number, or \<open>ValueError\<close> when there are more digits than the limit.
\<close>

definition digit_char :: "nat \<Rightarrow> char" where
  "digit_char d = ''0123456789'' ! d"

function show_nat :: "nat \<Rightarrow> string" where
  "show_nat n = (if n < 10 then [digit_char n] else show_nat (n div 10) @ [digit_char (n mod 10)])"
  by pat_completeness auto
termination
  by (relation "measure id") auto

declare show_nat.simps [simp del]

definition str_int :: "int \<Rightarrow> error + string" where
  "str_int i =
     (let digits = show_nat (nat \<bar>i\<bar>)
      in if length digits > int_max_str_digits then Inl ValueError
         else Inr (if i < 0 then CHR ''-'' # digits else digits))"

definition startswith :: "string \<Rightarrow> string \<Rightarrow> bool" where
  "startswith s pre = (take (length pre) s = pre)"

text \<open>\<open>sub in s\<close> for strings.\<close>

fun py_contains :: "string \<Rightarrow> string \<Rightarrow> bool" where
  "py_contains sub [] = (sub = [])"
| "py_contains sub (c # cs) = (startswith (c # cs) sub \<or> py_contains sub cs)"

text \<open>
  \<open>s.replace(old, new)\<close>: every occurrence of \<open>old\<close>, found from the left without
  overlap, is replaced.
\<close>

function py_replace :: "string \<Rightarrow> string \<Rightarrow> string \<Rightarrow> string" where
  "py_replace old new s =
     (if old = [] then new @ concat (map (\<lambda>c. c # new) s)
      else if s = [] then []
      else if startswith s old then new @ py_replace old new (drop (length old) s)
      else hd s # py_replace old new (tl s))"
  by pat_completeness auto
termination
  by (relation "measure (\<lambda>(old, new, s). length s)") auto

declare py_replace.simps [simp del]

text \<open>\<open>sep.join(parts)\<close>.\<close>

fun join :: "string \<Rightarrow> string list \<Rightarrow> string" where
  "join sep [] = []"
| "join sep [x] = x"
| "join sep (x # y # rest) = x @ sep @ join sep (y # rest)"


subsection \<open>\<open>_make_request\<close>\<close>

text \<open>
  The body of the retry loop, for one value of \<open>attempt\<close>. It ends the call with a
  value (\<open>return\<close>), ends it with an exception (\<open>raise\<close>), or goes on to the next
  attempt (\<open>continue\<close>, or the end of the \<open>except\<close> block). The \<open>except\<close> clause catches
  \<open>aiohttp.ClientError\<close> and \<open>asyncio.TimeoutError\<close> only; it is \<open>on_transport_error\<close>.
\<close>

datatype step = Return pyval | Raise error | Continue

definition on_transport_error :: "client \<Rightarrow> int \<Rightarrow> error \<Rightarrow> world \<Rightarrow> step \<times> world" where
  "on_transport_error cl attempt e w =
     (let wait_time = 2 ^ nat attempt
      in if attempt < max_retries cl then (Continue, sleep wait_time w)
         else (Raise e, w))"

text \<open>\<open>int(response.headers.get('Retry-After', 60))\<close>; \<open>None\<close> is the \<open>ValueError\<close> of \<open>int\<close>.\<close>

definition retry_after_of :: "string option \<Rightarrow> int option" where
  "retry_after_of hdr = (case hdr of None \<Rightarrow> Some 60 | Some h \<Rightarrow> py_int h)"

definition attempt_once ::
  "client \<Rightarrow> upstream \<Rightarrow> string \<Rightarrow> string \<Rightarrow> int option \<Rightarrow> int \<Rightarrow> world \<Rightarrow> step \<times> world" where
  "attempt_once cl up url resource_type resource_id attempt w =
     (let w1 = http_get url w
      in case up (calls w) url of
           ConnectionFailed \<Rightarrow> on_transport_error cl attempt ClientError w1
         | TimedOut \<Rightarrow> on_transport_error cl attempt TimeoutError w1
         | Response status hdr bd \<Rightarrow>
             if status = 429 then
               (case retry_after_of hdr of
                  None \<Rightarrow> (Raise ValueError, w1)
                | Some retry_after \<Rightarrow>
                    if attempt = max_retries cl then (Raise (RateLimitError retry_after), w1)
                    else (Continue, sleep retry_after w1))
             else if status = 404 then (Raise (NotFoundError resource_type resource_id), w1)
             else if 500 \<le> status \<and> status < 600 then
               (if attempt = max_retries cl then (Raise ServerError, w1)
                else (Continue, sleep (2 ^ nat attempt) w1))
             else if status \<noteq> 200 then
               (case bd of
                  BodyClientError \<Rightarrow> on_transport_error cl attempt ClientError w1
                | BodyValueError \<Rightarrow> (Raise ValueError, w1)
                | Json error_data \<Rightarrow>
                    (case error_data of
                       PDict d \<Rightarrow>
                         (Raise (APIError status
                            (case map_of d ''error'' of
                               None \<Rightarrow> PStr ''Unknown error''
                             | Some m \<Rightarrow> m)), w1)
                     | _ \<Rightarrow> (Raise AttributeError, w1)))
             else
               (case bd of
                  BodyClientError \<Rightarrow> on_transport_error cl attempt ClientError w1
                | BodyValueError \<Rightarrow> (Raise ValueError, w1)
                | Json v \<Rightarrow> (Return v, w1)))"

text \<open>
  \<open>for attempt in range(1, self._max_retries + 1)\<close>: the loop over the list of attempt
  numbers. When the list is used up the function falls off its end and returns \<open>None\<close>.
\<close>

fun retry_loop ::
  "client \<Rightarrow> upstream \<Rightarrow> string \<Rightarrow> string \<Rightarrow> int option \<Rightarrow> int list \<Rightarrow> world
     \<Rightarrow> (error + pyval) \<times> world" where
  "retry_loop cl up url resource_type resource_id [] w = (Inr PNone, w)"
| "retry_loop cl up url resource_type resource_id (attempt # rest) w =
     (case attempt_once cl up url resource_type resource_id attempt w of
        (Return v, w') \<Rightarrow> (Inr v, w')
      | (Raise e, w') \<Rightarrow> (Inl e, w')
      | (Continue, w') \<Rightarrow> retry_loop cl up url resource_type resource_id rest w')"

text \<open>
  The resource type and id taken from the endpoint for error messages: the first
  segment, and \<open>int\<close> of the second one when there is one and it satisfies \<open>isdigit\<close>. The
  \<open>ValueError\<close> of \<open>int\<close> leaves \<open>_make_request\<close> before any request.
\<close>

definition resource_ref :: "string \<Rightarrow> error + (string \<times> int option)" where
  "resource_ref endpoint =
     (case split_on CHR ''/'' endpoint of
        [] \<Rightarrow> Inl IndexError
      | resource_type # others \<Rightarrow>
          (case others of
             [] \<Rightarrow> Inr (resource_type, None)
           | second # _ \<Rightarrow>
               if isdigit second then
                 (case py_int second of
                    None \<Rightarrow> Inl ValueError
                  | Some i \<Rightarrow> Inr (resource_type, Some i))
               else Inr (resource_type, None)))"

definition make_request :: "client \<Rightarrow> upstream \<Rightarrow> string \<Rightarrow> world \<Rightarrow> (error + pyval) \<times> world" where
  "make_request cl up endpoint w =
     (if \<not> session cl then (Inl RuntimeError, w)
      else
        let url = BASE_URL @ ''/'' @ endpoint
        in case resource_ref endpoint of
             Inl e \<Rightarrow> (Inl e, w)
           | Inr (resource_type, resource_id) \<Rightarrow>
               retry_loop cl up url resource_type resource_id [1..max_retries cl] w)"

text \<open>\<open>get_character\<close>, \<open>get_location\<close> and \<open>get_episode\<close>.\<close>

definition get_character :: "client \<Rightarrow> upstream \<Rightarrow> int \<Rightarrow> world \<Rightarrow> (error + pyval) \<times> world" where
  "get_character cl up character_id w =
     (case str_int character_id of
        Inl e \<Rightarrow> (Inl e, w)
      | Inr text \<Rightarrow> make_request cl up (''character/'' @ text) w)"

definition get_location :: "client \<Rightarrow> upstream \<Rightarrow> int \<Rightarrow> world \<Rightarrow> (error + pyval) \<times> world" where
  "get_location cl up location_id w =
     (case str_int location_id of
        Inl e \<Rightarrow> (Inl e, w)
      | Inr text \<Rightarrow> make_request cl up (''location/'' @ text) w)"

definition get_episode :: "client \<Rightarrow> upstream \<Rightarrow> int \<Rightarrow> world \<Rightarrow> (error + pyval) \<times> world" where
  "get_episode cl up episode_id w =
     (case str_int episode_id of
        Inl e \<Rightarrow> (Inl e, w)
      | Inr text \<Rightarrow> make_request cl up (''episode/'' @ text) w)"

subsection \<open>\<open>get_all_resources\<close>\<close>

text \<open>The operations on dynamically typed values that the pagination loop uses.\<close>

definition truthy :: "pyval \<Rightarrow> bool" where
  "truthy v = (case v of
       PNone \<Rightarrow> False
     | PBool b \<Rightarrow> b
     | PInt i \<Rightarrow> i \<noteq> 0
     | PStr s \<Rightarrow> s \<noteq> []
     | PList l \<Rightarrow> l \<noteq> []
     | PDict d \<Rightarrow> d \<noteq> [])"

text \<open>\<open>"results" in data\<close>: a key of a dictionary, an element of a list, a substring.\<close>

definition results_in :: "pyval \<Rightarrow> error + bool" where
  "results_in data = (case data of
       PDict d \<Rightarrow> Inr (map_of d ''results'' \<noteq> None)
     | PList l \<Rightarrow> Inr (List.member l (PStr ''results''))
     | PStr s \<Rightarrow> Inr (py_contains ''results'' s)
     | _ \<Rightarrow> Inl TypeError)"

text \<open>\<open>v.get(key, default)\<close>: only a dictionary has the method.\<close>

definition py_get :: "pyval \<Rightarrow> string \<Rightarrow> pyval \<Rightarrow> error + pyval" where
  "py_get v key dflt = (case v of
       PDict d \<Rightarrow> Inr (case map_of d key of None \<Rightarrow> dflt | Some x \<Rightarrow> x)
     | _ \<Rightarrow> Inl AttributeError)"

text \<open>\<open>all_resources.extend(v)\<close>: any iterable is accepted.\<close>

definition py_extend :: "pyval list \<Rightarrow> pyval \<Rightarrow> error + pyval list" where
  "py_extend all_resources v = (case v of
       PList l \<Rightarrow> Inr (all_resources @ l)
     | PDict d \<Rightarrow> Inr (all_resources @ map (\<lambda>kv. PStr (fst kv)) d)
     | PStr s \<Rightarrow> Inr (all_resources @ map (\<lambda>c. PStr [c]) s)
     | _ \<Rightarrow> Inl TypeError)"

text \<open>
  The body of the \<open>while\<close> loop after the request: it leaves the loop (\<open>break\<close>), or ends
  the iteration with the new accumulator and the new value of \<open>next_url\<close>.
\<close>

datatype loop_ctl = Break "pyval list" | Next "pyval list" "string option"

definition page_body :: "pyval list \<Rightarrow> pyval \<Rightarrow> error + loop_ctl" where
  "page_body all_resources data =
     (case results_in data of
        Inl e \<Rightarrow> Inl e
      | Inr False \<Rightarrow> Inr (Break all_resources)
      | Inr True \<Rightarrow>
          (case py_get data ''results'' (PList []) of
             Inl e \<Rightarrow> Inl e
           | Inr r \<Rightarrow>
               (case py_extend all_resources r of
                  Inl e \<Rightarrow> Inl e
                | Inr acc \<Rightarrow>
                    (case py_get data ''info'' (PDict []) of
                       Inl e \<Rightarrow> Inl e
                     | Inr info \<Rightarrow>
                         (case py_get info ''next'' PNone of
                            Inl e \<Rightarrow> Inl e
                          | Inr next_page \<Rightarrow>
                              if truthy next_page then
                                (case next_page of
                                   PStr s \<Rightarrow> Inr (Next acc (Some (py_replace (BASE_URL @ ''/'') [] s)))
                                 | _ \<Rightarrow> Inl AttributeError)
                              else Inr (Next acc None))))))"

text \<open>
  \<open>while next_url:\<close> may run for ever when the upstream never stops handing out next
  links, so the loop is a partial function: \<open>None\<close> is "does not return".
\<close>

partial_function (option) fetch_pages ::
  "client \<Rightarrow> upstream \<Rightarrow> pyval list \<Rightarrow> string option \<Rightarrow> world
     \<Rightarrow> ((error + pyval list) \<times> world) option" where
  "fetch_pages cl up all_resources next_url w =
     (case next_url of
        None \<Rightarrow> Some (Inr all_resources, w)
      | Some u \<Rightarrow>
          if u = [] then Some (Inr all_resources, w)
          else
            (case make_request cl up u w of
               (Inl e, w') \<Rightarrow> Some (Inl e, w')
             | (Inr data, w') \<Rightarrow>
                 (case page_body all_resources data of
                    Inl e \<Rightarrow> Some (Inl e, w')
                  | Inr (Break acc) \<Rightarrow> Some (Inr acc, w')
                  | Inr (Next acc nxt) \<Rightarrow> fetch_pages cl up acc nxt w')))"

text \<open>The \<open>try\<close> around the whole loop: a \<open>NotFoundError\<close> from any page gives \<open>[]\<close>.\<close>

definition get_all_resources ::
  "client \<Rightarrow> upstream \<Rightarrow> string \<Rightarrow> world \<Rightarrow> ((error + pyval list) \<times> world) option" where
  "get_all_resources cl up resource_type w =
     (case fetch_pages cl up [] (Some resource_type) w of
        None \<Rightarrow> None
      | Some (Inl (NotFoundError t i), w') \<Rightarrow> Some (Inr [], w')
      | Some r \<Rightarrow> Some r)"

subsection \<open>Filters\<close>

text \<open>
  A filter value as the route layer passes it: \<open>None\<close>, a string, an int or a bool. A
  filter dictionary is an association list in insertion order. \<open>py_str\<close> is what
  \<open>f"{v}"\<close> renders.
\<close>

datatype fval = FNone | FStr string | FInt int | FBool bool

definition py_str :: "fval \<Rightarrow> error + string" where
  "py_str v = (case v of
       FNone \<Rightarrow> Inr ''None''
     | FStr s \<Rightarrow> Inr s
     | FInt i \<Rightarrow> str_int i
     | FBool b \<Rightarrow> Inr (if b then ''True'' else ''False''))"

text \<open>
  The generator \<open>f"{k}={v}" for k, v in filters.items() if v is not None\<close>, run to its
  end by \<open>join\<close>: the pieces in insertion order, or the exception of a rendering.
\<close>

fun query_pieces :: "(string \<times> fval) list \<Rightarrow> error + string list" where
  "query_pieces [] = Inr []"
| "query_pieces ((k, v) # rest) =
     (if v = FNone then query_pieces rest
      else
        (case py_str v of
           Inl e \<Rightarrow> Inl e
         | Inr text \<Rightarrow>
             (case query_pieces rest of
                Inl e \<Rightarrow> Inl e
              | Inr pieces \<Rightarrow> Inr ((k @ ''='' @ text) # pieces))))"

definition query_params :: "(string \<times> fval) list \<Rightarrow> error + string" where
  "query_params filters =
     (case query_pieces filters of
        Inl e \<Rightarrow> Inl e
      | Inr pieces \<Rightarrow> Inr (join ''&'' pieces))"

text \<open>The endpoint that \<open>get_characters\<close> hands to \<open>get_all_resources\<close>.\<close>

definition characters_endpoint :: "(string \<times> fval) list option \<Rightarrow> error + string" where
  "characters_endpoint filters =
     (case filters of
        None \<Rightarrow> Inr ''character''
      | Some fs \<Rightarrow>
          if fs = [] then Inr ''character''
          else
            (case query_params fs of
               Inl e \<Rightarrow> Inl e
             | Inr q \<Rightarrow> if q \<noteq> [] then Inr (''character'' @ ''/?'' @ q) else Inr ''character''))"

definition get_characters ::
  "client \<Rightarrow> upstream \<Rightarrow> (string \<times> fval) list option \<Rightarrow> world
     \<Rightarrow> ((error + pyval list) \<times> world) option" where
  "get_characters cl up filters w =
     (case characters_endpoint filters of
        Inl e \<Rightarrow> Some (Inl e, w)
      | Inr endpoint \<Rightarrow> get_all_resources cl up endpoint w)"

text \<open>
  The entries that the query string is written from: the entries whose value is not
  \<open>None\<close>, each with its value as rendered text.
\<close>

fun rendered_entries :: "(string \<times> fval) list \<Rightarrow> (string \<times> string) list" where
  "rendered_entries [] = []"
| "rendered_entries ((k, v) # rest) =
     (if v = FNone then rendered_entries rest
      else
        (case py_str v of
           Inl e \<Rightarrow> rendered_entries rest
         | Inr text \<Rightarrow> (k, text) # rendered_entries rest))"

subsection \<open>Test doubles for the upstream\<close>

text \<open>
  An upstream that answers the attempts with the listed outcomes in order, whatever the
  URL, and times out once the list is used up.
\<close>

definition scripted :: "outcome list \<Rightarrow> upstream" where
  "scripted outcomes = (\<lambda>n url. if n < length outcomes then outcomes ! n else TimedOut)"

definition world0 :: world where
  "world0 = \<lparr>calls = 0, trace = []\<rparr>"

text \<open>The body of a collection page in the upstream's wire format.\<close>

definition page_json :: "pyval list \<Rightarrow> pyval \<Rightarrow> pyval" where
  "page_json results nxt = PDict [(''info'', PDict [(''next'', nxt)]), (''results'', PList results)]"

subsection \<open>Well-formed page sequences\<close>

text \<open>
  The pages of a collection as the upstream serves them: each page is the endpoint it
  is requested at and the dictionary of its body. \<open>results_of\<close> is the list under
  \<open>"results"\<close>; \<open>page_next\<close> is the value \<open>data.get("info", {}).get("next")\<close>.
\<close>

definition has_results_list :: "(string \<times> pyval) list \<Rightarrow> bool" where
  "has_results_list d = (case map_of d ''results'' of Some (PList rs) \<Rightarrow> True | _ \<Rightarrow> False)"

definition results_of :: "(string \<times> pyval) list \<Rightarrow> pyval list" where
  "results_of d = (case map_of d ''results'' of Some (PList rs) \<Rightarrow> rs | _ \<Rightarrow> [])"

definition page_next :: "(string \<times> pyval) list \<Rightarrow> pyval option" where
  "page_next d =
     (case (case map_of d ''info'' of None \<Rightarrow> PDict [] | Some i \<Rightarrow> i) of
        PDict i \<Rightarrow> Some (case map_of i ''next'' of None \<Rightarrow> PNone | Some v \<Rightarrow> v)
      | _ \<Rightarrow> None)"

text \<open>
  \<open>links_to d nxt\<close>: the page's next link is absent or falsy (\<open>nxt = None\<close>), or it is a
  non-empty string from which the client derives the endpoint \<open>e\<close> (\<open>nxt = Some e\<close>).
\<close>

definition links_to :: "(string \<times> pyval) list \<Rightarrow> string option \<Rightarrow> bool" where
  "links_to d nxt =
     (case nxt of
        None \<Rightarrow> (case page_next d of Some v \<Rightarrow> \<not> truthy v | None \<Rightarrow> False)
      | Some e \<Rightarrow>
          (case page_next d of
             Some (PStr link) \<Rightarrow> link \<noteq> [] \<and> py_replace (BASE_URL @ ''/'') [] link = e
           | _ \<Rightarrow> False))"

text \<open>
  \<open>served up n ps final\<close>: from attempt number \<open>n\<close> on, the upstream answers the first
  attempt for each page of \<open>ps\<close> with status 200 and the page's body; every endpoint is
  one that \<open>_make_request\<close> sends a request for; every body has a results list; every
  page links to the next one, and the last page links to \<open>final\<close>.
\<close>

fun served ::
  "upstream \<Rightarrow> nat \<Rightarrow> (string \<times> (string \<times> pyval) list) list \<Rightarrow> string option \<Rightarrow> bool" where
  "served up n [] final = True"
| "served up n ((e, d) # ps) final =
     (e \<noteq> []
      \<and> (case resource_ref e of Inl err \<Rightarrow> False | Inr ref \<Rightarrow> True)
      \<and> (case up n (BASE_URL @ ''/'' @ e) of
           Response st hdr (Json (PDict d')) \<Rightarrow> st = 200 \<and> d' = d
         | _ \<Rightarrow> False)
      \<and> has_results_list d
      \<and> links_to d (case ps of [] \<Rightarrow> final | (e', d') # rest \<Rightarrow> Some e')
      \<and> served up (Suc n) ps final)"


section \<open>Properties of the rate limiter\<close>

lemma filter_window_mono2:
  "now \<le> (t'::real) \<Longrightarrow> filter (\<lambda>ts. now - ts < 60 \<and> t' - ts < 60) l = filter (\<lambda>ts. t' - ts < 60) l"
  by (induction l) auto

lemma fold_max_replicate: "fold max (replicate m (0::real)) 0 = 0"
  by (induction m) (auto simp del: fold_replicate)

lemma py_fmod_0: "py_fmod 0 300 = 0" by (simp add: py_fmod_def)

lemma is_rate_limited_admit_iff:
  "fst (is_rate_limited s ip now c) = False \<longleftrightarrow>
     int (length (filter (\<lambda>ts. now - ts < 60) (case requests s ip of None \<Rightarrow> [] | Some l \<Rightarrow> l))) < requests_per_minute s"
  by (auto simp: is_rate_limited_def Let_def)

lemma is_rate_limited_reject_state:
  "fst (is_rate_limited s ip now c) \<Longrightarrow>
     snd (is_rate_limited s ip now c) = s\<lparr>requests := (requests s)(ip \<mapsto> filter (\<lambda>ts. now - ts < 60) (case requests s ip of None \<Rightarrow> [] | Some l \<Rightarrow> l))\<rparr>"
  by (auto simp: is_rate_limited_def Let_def split: if_splits)

lemma is_rate_limited_reject_future:
  assumes "fst (is_rate_limited s ip now c)" "now \<le> t'"
  shows "is_rate_limited (snd (is_rate_limited s ip now c)) ip t' c' = is_rate_limited s ip t' c'"
proof -
  let ?l = "case requests s ip of None \<Rightarrow> [] | Some l \<Rightarrow> l"
  have st: "snd (is_rate_limited s ip now c) = s\<lparr>requests := (requests s)(ip \<mapsto> filter (\<lambda>ts. now - ts < 60) ?l)\<rparr>"
    using assms(1) by (rule is_rate_limited_reject_state)
  show ?thesis
    unfolding st by (simp add: is_rate_limited_def Let_def filter_window_mono2[OF assms(2)])
qed

lemma seq_fill:
  assumes "requests s ip = (if j = 0 then None else Some (replicate j 0)) \<or> requests s ip = Some (replicate j 0)"
    "int (j + k) \<le> requests_per_minute s" "c \<le> 300"
  shows "fst (is_rate_limited_seq s ip (replicate k (0, c))) = replicate k False \<and>
         requests_per_minute (snd (is_rate_limited_seq s ip (replicate k (0, c)))) = requests_per_minute s \<and>
         (k > 0 \<longrightarrow> requests (snd (is_rate_limited_seq s ip (replicate k (0, c)))) ip = Some (replicate (j + k) 0))"
  using assms
proof (induction k arbitrary: s j)
  case 0 then show ?case by simp
next
  case (Suc k)
  let ?r = "is_rate_limited s ip 0 c"
  have stored: "(case requests s ip of None \<Rightarrow> [] | Some l \<Rightarrow> l) = replicate j (0::real)"
    using Suc.prems(1) by (auto split: if_splits)
  have adm: "fst ?r = False"
    using Suc.prems(2) is_rate_limited_admit_iff[of s ip 0 c] by (simp add: stored)
  have rep: "replicate j (0::real) @ [0] = 0 # replicate j 0"
    by (simp add: replicate_append_same)
  have st: "requests (snd ?r) ip = Some (replicate (Suc j) 0) \<and> requests_per_minute (snd ?r) = requests_per_minute s"
    using Suc.prems(2,3) by (simp add: is_rate_limited_def Let_def stored py_fmod_0 cleanup_def rep fold_max_replicate del: fold_replicate)
  have ih: "fst (is_rate_limited_seq (snd ?r) ip (replicate k (0, c))) = replicate k False \<and>
         requests_per_minute (snd (is_rate_limited_seq (snd ?r) ip (replicate k (0, c)))) = requests_per_minute (snd ?r) \<and>
         (k > 0 \<longrightarrow> requests (snd (is_rate_limited_seq (snd ?r) ip (replicate k (0, c)))) ip = Some (replicate (Suc j + k) 0))"
    apply (rule Suc.IH) using st Suc.prems by auto
  show ?case
    using ih adm st by (cases k) (auto simp: split_beta Let_def)
qed



lemma fold_max_Max: "fold max rest (t::real) = Max (set (t # rest))"
  using Max.set_eq_fold[of t rest] by simp

text \<open>
  Claim C6, as amended. After a call the list stored for the key, if the key is still
  present, is the old list without the timestamps that are 60 seconds old or older,
  followed by the clock reading of the call when the call was admitted; every stored
  timestamp is less than 60 seconds old. A timestamp exactly 60 seconds old is removed.
\<close>

theorem window_after_call:
  assumes "requests (snd (is_rate_limited s ip now c)) ip = Some l"
  shows "l = filter (\<lambda>ts. now - ts < 60) (case requests s ip of None \<Rightarrow> [] | Some l \<Rightarrow> l)
               @ (if fst (is_rate_limited s ip now c) then [] else [now])
         \<and> (\<forall>ts\<in>set l. now - ts < 60)"
  using assms
  by (auto simp: is_rate_limited_def Let_def cleanup_def split: if_splits list.splits)

theorem window_after_call_witness:
  "requests (snd (is_rate_limited
       \<lparr>requests_per_minute = 30, requests = [''10.0.0.1'' \<mapsto> [0, 10, 30]]\<rparr> ''10.0.0.1'' 65 65))
     ''10.0.0.1'' = Some [10, 30, 65]
   \<and> [10, 30, 65] = filter (\<lambda>ts. 65 - ts < 60) [0, 10, 30] @ [65::real]"
proof -
  have h: "requests (snd (is_rate_limited
       \<lparr>requests_per_minute = 30, requests = [''10.0.0.1'' \<mapsto> [0, 10, 30]]\<rparr> ''10.0.0.1'' 65 65))
     ''10.0.0.1'' = Some [10, 30, 65]"
    by (simp add: is_rate_limited_def Let_def cleanup_def py_fmod_def)
  show ?thesis
    using h window_after_call[OF h] by simp
qed

text \<open>
  The claim as stated fails: a timestamp exactly 60 seconds old (0, at clock reading
  60) is not kept.
\<close>

theorem prune_boundary_counterexample:
  "(60::real) - 0 \<le> 60
   \<and> requests (snd (is_rate_limited
        \<lparr>requests_per_minute = 30, requests = [''10.0.0.1'' \<mapsto> [0]]\<rparr> ''10.0.0.1'' 60 60))
      ''10.0.0.1'' = Some [60]"
  by (simp add: is_rate_limited_def Let_def cleanup_def py_fmod_def)

text \<open>
  Claim C7, as amended. \<open>_cleanup\<close> deletes exactly the keys whose list is empty or whose
  latest timestamp is more than 300 seconds before its clock reading.
  \<open>is_rate_limited\<close> runs it only at the end of an admitted call whose clock reading
  \<open>now\<close> has \<open>now % 300 < 1\<close>; any other call removes no key.
\<close>

theorem cleanup_when_triggered:
  "requests (cleanup s c) k =
     (case requests s k of
        None \<Rightarrow> None
      | Some ts \<Rightarrow> if ts = [] \<or> 300 < c - Max (set ts) then None else Some ts)
   \<and> (\<not> fst (is_rate_limited s ip now c) \<and> py_fmod now 300 < 1 \<longrightarrow>
        snd (is_rate_limited s ip now c) =
          cleanup (s\<lparr>requests := (requests s)(ip \<mapsto>
              filter (\<lambda>ts. now - ts < 60) (case requests s ip of None \<Rightarrow> [] | Some l \<Rightarrow> l) @ [now])\<rparr>) c)
   \<and> (fst (is_rate_limited s ip now c) \<or> \<not> py_fmod now 300 < 1 \<longrightarrow>
        (\<forall>k. requests s k \<noteq> None \<longrightarrow> requests (snd (is_rate_limited s ip now c)) k \<noteq> None))"
proof (intro conjI impI allI)
  show "requests (cleanup s c) k =
     (case requests s k of
        None \<Rightarrow> None
      | Some ts \<Rightarrow> if ts = [] \<or> 300 < c - Max (set ts) then None else Some ts)"
    by (simp add: cleanup_def fold_max_Max split: option.splits list.splits)
next
  assume "\<not> fst (is_rate_limited s ip now c) \<and> py_fmod now 300 < 1"
  then show "snd (is_rate_limited s ip now c) =
          cleanup (s\<lparr>requests := (requests s)(ip \<mapsto>
              filter (\<lambda>ts. now - ts < 60) (case requests s ip of None \<Rightarrow> [] | Some l \<Rightarrow> l) @ [now])\<rparr>) c"
    by (auto simp: is_rate_limited_def Let_def split: if_splits)
next
  fix k'
  assume "fst (is_rate_limited s ip now c) \<or> \<not> py_fmod now 300 < 1" "requests s k' \<noteq> None"
  then show "requests (snd (is_rate_limited s ip now c)) k' \<noteq> None"
    by (auto simp: is_rate_limited_def Let_def split: if_splits)
qed

theorem cleanup_when_triggered_witness:
  "requests (snd (is_rate_limited
       \<lparr>requests_per_minute = 30, requests = [''10.0.0.1'' \<mapsto> [0]]\<rparr> ''10.0.0.2'' 600.5 600.5))
     ''10.0.0.1'' = None
   \<and> requests (snd (is_rate_limited
       \<lparr>requests_per_minute = 30, requests = [''10.0.0.1'' \<mapsto> [0]]\<rparr> ''10.0.0.2'' 1000 1000))
     ''10.0.0.1'' \<noteq> None"
proof -
  let ?s = "\<lparr>requests_per_minute = 30, requests = [''10.0.0.1'' \<mapsto> [0::real]]\<rparr>"
  have a: "\<not> fst (is_rate_limited ?s ''10.0.0.2'' 600.5 600.5) \<and> py_fmod 600.5 300 < 1"
    by (simp add: is_rate_limited_def Let_def py_fmod_def)
  have b: "fst (is_rate_limited ?s ''10.0.0.2'' 1000 1000) \<or> \<not> py_fmod 1000 300 < 1"
    by (simp add: py_fmod_def)
  have c: "requests ?s ''10.0.0.1'' \<noteq> None"
    by simp
  show ?thesis
    using cleanup_when_triggered[where s = ?s and ip = "''10.0.0.2''" and now = "600.5" and c = "600.5"] a
      cleanup_when_triggered[where s = ?s and ip = "''10.0.0.2''" and now = 1000 and c = 1000] b c
    by (simp add: cleanup_def)
qed

text \<open>
  The claim as stated fails: four admitted calls for another key at 100, 450, 800 and
  1150 span more than three 300-second intervals, none has \<open>now % 300 < 1\<close>, and the
  key that has been idle since 0 is still stored.
\<close>

theorem idle_key_kept_counterexample:
  "requests (snd (is_rate_limited_seq
       \<lparr>requests_per_minute = 30, requests = [''10.0.0.1'' \<mapsto> [0]]\<rparr> ''10.0.0.2''
       [(100, 100), (450, 450), (800, 800), (1150, 1150)]))
     ''10.0.0.1'' = Some [0]"
  by (simp add: is_rate_limited_def Let_def cleanup_def py_fmod_def)


section \<open>Properties of the upstream client\<close>

lemma split_on_nonempty: "split_on sep s \<noteq> []"
  by (induction s) (auto split: list.splits)

lemma attempt_once_calls: "calls (snd (attempt_once cl up url rt rid a w)) = Suc (calls w)"
  by (auto simp: attempt_once_def Let_def http_get_def sleep_def on_transport_error_def
      split: outcome.splits option.splits body.splits pyval.splits)

lemma attempt_once_Continue:
  "attempt_once cl up url rt rid a w = (Continue, w') \<Longrightarrow> a \<noteq> max_retries cl"
  by (auto simp: attempt_once_def Let_def on_transport_error_def
      split: outcome.splits option.splits body.splits pyval.splits if_splits)

lemma attempt_once_Return:
  "attempt_once cl up url rt rid a w = (Return v, w') \<Longrightarrow> \<exists>hdr. up (calls w) url = Response 200 hdr (Json v)"
  by (auto simp: attempt_once_def Let_def on_transport_error_def
      split: outcome.splits option.splits body.splits pyval.splits if_splits)

lemma retry_loop_calls_mono: "calls w \<le> calls (snd (retry_loop cl up url rt rid as w))"
proof (induction as arbitrary: w)
  case Nil show ?case by simp
next
  case (Cons a as)
  obtain st w' where s: "attempt_once cl up url rt rid a w = (st, w')" by (cases "attempt_once cl up url rt rid a w")
  have c: "calls w' = Suc (calls w)" using attempt_once_calls[of cl up url rt rid a w] s by simp
  show ?case using Cons.IH[of w'] c s by (cases st) auto
qed

lemma retry_loop_calls_grow: "as \<noteq> [] \<Longrightarrow> calls w < calls (snd (retry_loop cl up url rt rid as w))"
proof (cases as)
  case Nil then show "as \<noteq> [] \<Longrightarrow> ?thesis" by simp
next
  case (Cons a as')
  obtain st w' where s: "attempt_once cl up url rt rid a w = (st, w')" by (cases "attempt_once cl up url rt rid a w")
  have c: "calls w' = Suc (calls w)" using attempt_once_calls[of cl up url rt rid a w] s by simp
  show ?thesis using retry_loop_calls_mono[of w' cl up url rt rid as'] c s Cons by (cases st) auto
qed

lemma retry_loop_Inr:
  "as \<noteq> [] \<Longrightarrow> last as = max_retries cl \<Longrightarrow> fst (retry_loop cl up url rt rid as w) = Inr v
     \<Longrightarrow> \<exists>n hdr. up n url = Response 200 hdr (Json v)"
proof (induction as arbitrary: w)
  case Nil then show ?case by simp
next
  case (Cons a as)
  obtain st w' where s: "attempt_once cl up url rt rid a w = (st, w')" by (cases "attempt_once cl up url rt rid a w")
  show ?case
  proof (cases st)
    case (Return x)
    then show ?thesis using s Cons.prems attempt_once_Return[of cl up url rt rid a w x w'] by auto
  next
    case (Raise e) then show ?thesis using s Cons.prems by simp
  next
    case Continue
    have ne: "a \<noteq> max_retries cl" using attempt_once_Continue s Continue by blast
    then have "as \<noteq> []" using Cons.prems(2) by auto
    moreover have "last as = max_retries cl" using Cons.prems(2) \<open>as \<noteq> []\<close> by simp
    moreover have "fst (retry_loop cl up url rt rid as w') = Inr v" using Cons.prems(3) s Continue by simp
    ultimately show ?thesis using Cons.IH by blast
  qed
qed

lemma upto_last: "a \<le> n \<Longrightarrow> last [a..n] = n"
  by (simp add: upto_rec2)

lemma upto_ne: "a \<le> n \<Longrightarrow> [a..n] \<noteq> []"
  by (simp add: upto_rec2)

lemma make_request_retry_loop:
  assumes "session cl" "resource_ref endpoint = Inr (rt, rid)"
  shows "make_request cl up endpoint w =
    retry_loop cl up (BASE_URL @ ''/'' @ endpoint) rt rid [1..max_retries cl] w"
  using assms by (simp add: make_request_def Let_def)

lemma make_request_unparsed:
  assumes "session cl" "resource_ref endpoint = Inl e"
  shows "make_request cl up endpoint w = (Inl e, w)"
  using assms by (simp add: make_request_def Let_def)


lemma resource_ref_character_1: "resource_ref ''character/1'' = Inr (''character'', Some 1)"
  by (simp add: resource_ref_def isdigit_def is_unicode_digit_def is_digit_def py_int_def
      is_space_def decimal_value_def int_max_str_digits_def nat_of_digits_def)

lemma resource_ref_superscript:
  "resource_ref (''character/'' @ [CHR 0xB2]) = Inl ValueError"
  by (simp add: resource_ref_def isdigit_def is_unicode_digit_def is_digit_def py_int_def
      is_space_def decimal_value_def)



lemma attempt_once_5xx:
  assumes "up (calls w) url = Response st hdr bd" "500 \<le> st" "st < 600"
  shows "attempt_once cl up url rt rid a w =
     (if a = max_retries cl then (Raise ServerError, http_get url w)
      else (Continue, sleep (2 ^ nat a) (http_get url w)))"
  using assms by (simp add: attempt_once_def Let_def)

lemma attempt_once_429:
  assumes "up (calls w) url = Response 429 hdr bd" "retry_after_of hdr = Some r"
  shows "attempt_once cl up url rt rid a w =
     (if a = max_retries cl then (Raise (RateLimitError r), http_get url w)
      else (Continue, sleep r (http_get url w)))"
  using assms by (simp add: attempt_once_def Let_def)

lemma attempt_once_404:
  assumes "up (calls w) url = Response 404 hdr bd"
  shows "attempt_once cl up url rt rid a w = (Raise (NotFoundError rt rid), http_get url w)"
  using assms by (simp add: attempt_once_def Let_def)

lemma attempt_once_200:
  assumes "up (calls w) url = Response 200 hdr (Json v)"
  shows "attempt_once cl up url rt rid a w = (Return v, http_get url w)"
  using assms by (simp add: attempt_once_def Let_def)

lemma upto_step: "a \<le> n \<Longrightarrow> [a..n] = a # [a + 1..n]"
  by (simp add: upto_rec1)

lemma calls_step [simp]: "calls (sleep r (http_get url w)) = Suc (calls w)"
  "calls (http_get url w) = Suc (calls w)"
  by (simp_all add: sleep_def http_get_def)

lemma trace_step [simp]: "trace (sleep r (http_get url w)) = trace w @ [Get url, Sleep r]"
  "trace (http_get url w) = trace w @ [Get url]"
  by (simp_all add: sleep_def http_get_def)

lemma retry_loop_5xx_then_200:
  assumes "\<forall>i<k. \<exists>st hdr bd. up (calls w + i) url = Response st hdr bd \<and> 500 \<le> st \<and> st < 600"
    "up (calls w + k) url = Response 200 hdr (Json v)"
    "a + int k \<le> max_retries cl" "0 \<le> a"
  shows "retry_loop cl up url rt rid [a..max_retries cl] w =
     (Inr v, \<lparr>calls = calls w + k + 1,
              trace = trace w @ concat (map (\<lambda>i. [Get url, Sleep (2 ^ (nat a + i))]) [0..<k]) @ [Get url]\<rparr>)"
  using assms
proof (induction k arbitrary: a w)
  case 0
  then show ?case
    by (simp add: upto_step[of a] attempt_once_200[where up = up and w = w and url = url and hdr = hdr and v = v] http_get_def)
next
  case (Suc k)
  from Suc.prems(1) obtain st h b where r: "up (calls w) url = Response st h b" "500 \<le> st" "st < 600"
    by force
  let ?w = "sleep (2 ^ nat a) (http_get url w)"
  have ne: "a \<noteq> max_retries cl" using Suc.prems(3) by simp
  have step: "retry_loop cl up url rt rid [a..max_retries cl] w = retry_loop cl up url rt rid [a + 1..max_retries cl] ?w"
    using Suc.prems(3) ne by (simp add: upto_step[of a] attempt_once_5xx[where up = up and w = w and url = url, OF r])
  have ih: "retry_loop cl up url rt rid [a + 1..max_retries cl] ?w =
     (Inr v, \<lparr>calls = calls ?w + k + 1,
              trace = trace ?w @ concat (map (\<lambda>i. [Get url, Sleep (2 ^ (nat (a + 1) + i))]) [0..<k]) @ [Get url]\<rparr>)"
  proof (rule Suc.IH)
    show "\<forall>i<k. \<exists>st hdr bd. up (calls ?w + i) url = Response st hdr bd \<and> 500 \<le> st \<and> st < 600"
      using Suc.prems(1) by (auto simp: less_Suc_eq_0_disj)
    show "up (calls ?w + k) url = Response 200 hdr (Json v)" using Suc.prems(2) by simp
    show "a + 1 + int k \<le> max_retries cl" using Suc.prems(3) by simp
    show "0 \<le> a + 1" using Suc.prems(4) by simp
  qed
  have m: "map (\<lambda>i. [Get url, Sleep (2 ^ (nat a + i))]) [0..<Suc k]
         = [Get url, Sleep (2 ^ nat a)] # map (\<lambda>i. [Get url, Sleep (2 ^ (nat (a + 1) + i))]) [0..<k]"
  proof -
    have u: "[0..<Suc k] = 0 # map Suc [0..<k]"
      by (simp add: upt_rec[of 0 "Suc k"] map_Suc_upt del: upt_Suc)
    show ?thesis
      unfolding u using Suc.prems(4) by (simp add: nat_add_distrib o_def)
  qed
  show ?case unfolding step ih m by simp
qed

lemma retry_loop_5xx_all:
  assumes "\<forall>i\<le>k. \<exists>st hdr bd. up (calls w + i) url = Response st hdr bd \<and> 500 \<le> st \<and> st < 600"
    "a + int k = max_retries cl" "0 \<le> a"
  shows "retry_loop cl up url rt rid [a..max_retries cl] w =
     (Inl ServerError, \<lparr>calls = calls w + k + 1,
              trace = trace w @ concat (map (\<lambda>i. [Get url, Sleep (2 ^ (nat a + i))]) [0..<k]) @ [Get url]\<rparr>)"
  using assms
proof (induction k arbitrary: a w)
  case 0
  from "0.prems"(1) obtain st h b where r: "up (calls w) url = Response st h b" "500 \<le> st" "st < 600"
    by force
  show ?case using "0.prems"(2)
    by (simp add: upto_step[of a] attempt_once_5xx[where up = up and w = w and url = url, OF r] http_get_def)
next
  case (Suc k)
  from Suc.prems(1) obtain st h b where r: "up (calls w) url = Response st h b" "500 \<le> st" "st < 600"
    by force
  let ?w = "sleep (2 ^ nat a) (http_get url w)"
  have ne: "a \<noteq> max_retries cl" using Suc.prems(2) by simp
  have step: "retry_loop cl up url rt rid [a..max_retries cl] w = retry_loop cl up url rt rid [a + 1..max_retries cl] ?w"
    using Suc.prems(2) ne by (simp add: upto_step[of a] attempt_once_5xx[where up = up and w = w and url = url, OF r])
  have ih: "retry_loop cl up url rt rid [a + 1..max_retries cl] ?w =
     (Inl ServerError, \<lparr>calls = calls ?w + k + 1,
              trace = trace ?w @ concat (map (\<lambda>i. [Get url, Sleep (2 ^ (nat (a + 1) + i))]) [0..<k]) @ [Get url]\<rparr>)"
  proof (rule Suc.IH)
    show "\<forall>i\<le>k. \<exists>st hdr bd. up (calls ?w + i) url = Response st hdr bd \<and> 500 \<le> st \<and> st < 600"
    proof (intro allI impI)
      fix i assume "i \<le> k"
      then have "Suc i \<le> Suc k" by simp
      then show "\<exists>st hdr bd. up (calls ?w + i) url = Response st hdr bd \<and> 500 \<le> st \<and> st < 600"
        using Suc.prems(1) by (metis add_Suc_shift calls_step(1))
    qed
    show "a + 1 + int k = max_retries cl" using Suc.prems(2) by simp
    show "0 \<le> a + 1" using Suc.prems(3) by simp
  qed
  have m: "map (\<lambda>i. [Get url, Sleep (2 ^ (nat a + i))]) [0..<Suc k]
         = [Get url, Sleep (2 ^ nat a)] # map (\<lambda>i. [Get url, Sleep (2 ^ (nat (a + 1) + i))]) [0..<k]"
  proof -
    have u: "[0..<Suc k] = 0 # map Suc [0..<k]"
      by (simp add: upt_rec[of 0 "Suc k"] map_Suc_upt del: upt_Suc)
    show ?thesis
      unfolding u using Suc.prems(3) by (simp add: nat_add_distrib o_def)
  qed
  show ?case unfolding step ih m by simp
qed

lemma of_char_digit_char: "d < 10 \<Longrightarrow> of_char (digit_char d) = 48 + d"
proof -
  assume "d < 10"
  then have "d \<in> {0,1,2,3,4,5,6,7,8,9}" by auto
  then show ?thesis by (auto simp: digit_char_def)
qed

lemma is_digit_digit_char: "d < 10 \<Longrightarrow> is_digit (digit_char d)"
proof -
  assume "d < 10"
  then have "d \<in> {0,1,2,3,4,5,6,7,8,9}" by auto
  then show ?thesis by (auto simp: is_digit_def digit_char_def)
qed

lemma show_nat_digits: "list_all is_digit (show_nat n) \<and> show_nat n \<noteq> []"
proof (induction n rule: show_nat.induct)
  case (1 n)
  show ?case
  proof (cases "n < 10")
    case True then show ?thesis by (simp add: show_nat.simps[of n] is_digit_digit_char)
  next
    case False
    then show ?thesis using 1 by (simp add: show_nat.simps[of n] is_digit_digit_char)
  qed
qed

lemma nat_of_digits_snoc: "nat_of_digits (ds @ [c]) = 10 * nat_of_digits ds + (of_char c - 48)"
  by (simp add: nat_of_digits_def)

lemma nat_of_digits_show_nat: "nat_of_digits (show_nat n) = n"
proof (induction n rule: show_nat.induct)
  case (1 n)
  show ?case
  proof (cases "n < 10")
    case True then show ?thesis by (simp add: show_nat.simps[of n] nat_of_digits_def of_char_digit_char)
  next
    case False
    then show ?thesis using 1 by (simp add: show_nat.simps[of n] nat_of_digits_snoc of_char_digit_char)
  qed
qed

lemma split_on_no_sep: "sep \<notin> set s \<Longrightarrow> split_on sep s = [s]"
  by (induction s) auto

lemma split_on_two: "sep \<notin> set p \<Longrightarrow> sep \<notin> set q \<Longrightarrow> split_on sep (p @ sep # q) = [p, q]"
  by (induction p) (auto simp: split_on_no_sep)

lemma digits_no_slash: "list_all is_digit s \<Longrightarrow> CHR ''/'' \<notin> set s"
  by (induction s) (auto simp: is_digit_def)

lemma retry_loop_429_then_200:
  assumes "\<forall>i<length rs. \<exists>hdr bd. up (calls w + i) url = Response 429 hdr bd \<and> retry_after_of hdr = Some (rs ! i)"
    "up (calls w + length rs) url = Response 200 hdr (Json v)"
    "a + int (length rs) \<le> max_retries cl"
  shows "retry_loop cl up url rt rid [a..max_retries cl] w =
     (Inr v, \<lparr>calls = calls w + length rs + 1,
              trace = trace w @ concat (map (\<lambda>r. [Get url, Sleep r]) rs) @ [Get url]\<rparr>)"
  using assms
proof (induction rs arbitrary: a w)
  case Nil
  then show ?case
    by (simp add: upto_step[of a] attempt_once_200[where up = up and w = w and url = url and hdr = hdr and v = v] http_get_def)
next
  case (Cons r rs)
  from Cons.prems(1) obtain h b where r: "up (calls w) url = Response 429 h b" "retry_after_of h = Some r"
    by force
  let ?w = "sleep r (http_get url w)"
  have ne: "a \<noteq> max_retries cl" using Cons.prems(3) by simp
  have step: "retry_loop cl up url rt rid [a..max_retries cl] w = retry_loop cl up url rt rid [a + 1..max_retries cl] ?w"
    using Cons.prems(3) ne by (simp add: upto_step[of a] attempt_once_429[where up = up and w = w and url = url, OF r])
  have ih: "retry_loop cl up url rt rid [a + 1..max_retries cl] ?w =
     (Inr v, \<lparr>calls = calls ?w + length rs + 1,
              trace = trace ?w @ concat (map (\<lambda>r. [Get url, Sleep r]) rs) @ [Get url]\<rparr>)"
  proof (rule Cons.IH)
    show "\<forall>i<length rs. \<exists>hdr bd. up (calls ?w + i) url = Response 429 hdr bd \<and> retry_after_of hdr = Some (rs ! i)"
    proof (intro allI impI)
      fix i assume "i < length rs"
      then have "Suc i < length (r # rs)" by simp
      from Cons.prems(1)[rule_format, OF this]
      show "\<exists>hdr bd. up (calls ?w + i) url = Response 429 hdr bd \<and> retry_after_of hdr = Some (rs ! i)"
        by simp
    qed
    show "up (calls ?w + length rs) url = Response 200 hdr (Json v)" using Cons.prems(2) by simp
    show "a + 1 + int (length rs) \<le> max_retries cl" using Cons.prems(3) by simp
  qed
  show ?case unfolding step ih by simp
qed

lemma retry_loop_429_all:
  assumes "\<forall>i\<le>length rs. \<exists>hdr bd. up (calls w + i) url = Response 429 hdr bd \<and> retry_after_of hdr = Some ((rs @ [r]) ! i)"
    "a + int (length rs) = max_retries cl"
  shows "retry_loop cl up url rt rid [a..max_retries cl] w =
     (Inl (RateLimitError r), \<lparr>calls = calls w + length rs + 1,
              trace = trace w @ concat (map (\<lambda>r. [Get url, Sleep r]) rs) @ [Get url]\<rparr>)"
  using assms
proof (induction rs arbitrary: a w)
  case Nil
  from Nil.prems(1) obtain h b where r: "up (calls w) url = Response 429 h b" "retry_after_of h = Some r"
    by force
  show ?case using Nil.prems(2)
    by (simp add: upto_step[of a] attempt_once_429[where up = up and w = w and url = url, OF r] http_get_def)
next
  case (Cons r' rs)
  from Cons.prems(1) obtain h b where r: "up (calls w) url = Response 429 h b" "retry_after_of h = Some r'"
    by force
  let ?w = "sleep r' (http_get url w)"
  have ne: "a \<noteq> max_retries cl" using Cons.prems(2) by simp
  have step: "retry_loop cl up url rt rid [a..max_retries cl] w = retry_loop cl up url rt rid [a + 1..max_retries cl] ?w"
    using Cons.prems(2) ne by (simp add: upto_step[of a] attempt_once_429[where up = up and w = w and url = url, OF r])
  have ih: "retry_loop cl up url rt rid [a + 1..max_retries cl] ?w =
     (Inl (RateLimitError r), \<lparr>calls = calls ?w + length rs + 1,
              trace = trace ?w @ concat (map (\<lambda>r. [Get url, Sleep r]) rs) @ [Get url]\<rparr>)"
  proof (rule Cons.IH)
    show "\<forall>i\<le>length rs. \<exists>hdr bd. up (calls ?w + i) url = Response 429 hdr bd \<and> retry_after_of hdr = Some ((rs @ [r]) ! i)"
    proof (intro allI impI)
      fix i assume "i \<le> length rs"
      then have "Suc i \<le> length (r' # rs)" by simp
      from Cons.prems(1)[rule_format, OF this]
      show "\<exists>hdr bd. up (calls ?w + i) url = Response 429 hdr bd \<and> retry_after_of hdr = Some ((rs @ [r]) ! i)"
        by simp
    qed
    show "a + 1 + int (length rs) = max_retries cl" using Cons.prems(2) by simp
  qed
  show ?case unfolding step ih by simp
qed


lemma digit_groups_digits: "list_all is_digit s \<Longrightarrow> s \<noteq> [] \<Longrightarrow> digit_groups s = Some s"
proof (induction s rule: digit_groups.induct)
  case 1 then show ?case by simp
next
  case (2 c) then show ?case by simp
next
  case (3 c d rest)
  have "d \<noteq> CHR ''_''" using 3(3) by (auto simp: is_digit_def)
  then show ?case using 3 by simp
qed

lemma decimal_value_digits:
  "list_all is_digit s \<Longrightarrow> s \<noteq> [] \<Longrightarrow> length s \<le> int_max_str_digits
     \<Longrightarrow> decimal_value s = Some (nat_of_digits s)"
  by (simp add: decimal_value_def digit_groups_digits)

lemma strip_digits:
  assumes "list_all is_digit s" "pre = [] \<or> pre = ''-''" "s \<noteq> []"
  shows "rev (dropWhile is_space (rev (dropWhile is_space (pre @ s)))) = pre @ s"
proof -
  have h: "dropWhile is_space (pre @ s) = pre @ s"
    using assms by (cases s) (auto simp: is_digit_def is_space_def)
  have "\<not> is_space (last s)"
    using assms(1,3) by (cases s rule: rev_cases) (auto simp: is_digit_def is_space_def)
  then have "dropWhile is_space (rev (pre @ s)) = rev (pre @ s)"
    using assms(3) by (cases s rule: rev_cases) auto
  then show ?thesis by (simp add: h)
qed

lemma py_int_digits:
  assumes "list_all is_digit s" "s \<noteq> []" "length s \<le> int_max_str_digits"
  shows "py_int s = Some (int (nat_of_digits s))"
proof -
  have t: "rev (dropWhile is_space (rev (dropWhile is_space s))) = s"
    using strip_digits[OF assms(1), of "[]"] assms(2) by simp
  obtain c cs where s: "s = c # cs" using assms(2) by (cases s) auto
  have c: "c \<noteq> CHR ''-''" "c \<noteq> CHR ''+''" using assms(1) s by (auto simp: is_digit_def)
  show ?thesis
    using decimal_value_digits[OF assms] c
    by (simp add: py_int_def t Let_def) (simp add: s)
qed

lemma py_int_minus_digits:
  assumes "list_all is_digit s" "s \<noteq> []" "length s \<le> int_max_str_digits"
  shows "py_int (CHR ''-'' # s) = Some (- int (nat_of_digits s))"
proof -
  have t: "rev (dropWhile is_space (rev (dropWhile is_space (CHR ''-'' # s)))) = CHR ''-'' # s"
    using strip_digits[OF assms(1), of "''-''"] assms(2) by simp
  show ?thesis
    using decimal_value_digits[OF assms]
    by (simp only: py_int_def Let_def t) simp
qed

lemma str_int_cases:
  assumes "str_int n = Inr s"
  shows "length (show_nat (nat \<bar>n\<bar>)) \<le> int_max_str_digits
         \<and> s = (if n < 0 then CHR ''-'' # show_nat (nat \<bar>n\<bar>) else show_nat (nat \<bar>n\<bar>))"
  using assms by (auto simp: str_int_def Let_def split: if_splits)

lemma py_int_str_int: "str_int n = Inr s \<Longrightarrow> py_int s = Some n"
proof -
  assume a: "str_int n = Inr s"
  let ?d = "show_nat (nat \<bar>n\<bar>)"
  have d: "list_all is_digit ?d" "?d \<noteq> []" using show_nat_digits[of "nat \<bar>n\<bar>"] by auto
  have l: "length ?d \<le> int_max_str_digits" using str_int_cases[OF a] by simp
  show ?thesis
  proof (cases "n < 0")
    case True
    then have "s = CHR ''-'' # ?d" using str_int_cases[OF a] by simp
    then show ?thesis using py_int_minus_digits[OF d l] True by (simp add: nat_of_digits_show_nat)
  next
    case False
    then have "s = ?d" using str_int_cases[OF a] by simp
    then show ?thesis using py_int_digits[OF d l] False by (simp add: nat_of_digits_show_nat)
  qed
qed

lemma retry_after_of_str_int: "str_int n = Inr s \<Longrightarrow> retry_after_of (Some s) = Some n"
  by (simp add: retry_after_of_def py_int_str_int)

lemma isdigit_digits: "list_all is_digit s \<Longrightarrow> s \<noteq> [] \<Longrightarrow> isdigit s"
  by (simp add: isdigit_def is_unicode_digit_def list_all_iff)

lemma fetch_one_ref:
  assumes "str_int n = Inr s" "CHR ''/'' \<notin> set kind"
  shows "resource_ref (kind @ ''/'' @ s) = Inr (kind, if 0 \<le> n then Some n else None)"
proof -
  let ?d = "show_nat (nat \<bar>n\<bar>)"
  have d: "list_all is_digit ?d" "?d \<noteq> []" using show_nat_digits[of "nat \<bar>n\<bar>"] by auto
  show ?thesis
  proof (cases "n < 0")
    case True
    then have s: "s = CHR ''-'' # ?d" using str_int_cases[OF assms(1)] by simp
    have ns: "CHR ''/'' \<notin> set s" using digits_no_slash[OF d(1)] by (simp add: s)
    have sp: "split_on CHR ''/'' (kind @ CHR ''/'' # s) = [kind, s]"
      using split_on_two[OF assms(2) ns] .
    have nd: "\<not> isdigit s" by (simp add: s isdigit_def is_unicode_digit_def is_digit_def)
    show ?thesis using True nd by (simp add: resource_ref_def sp)
  next
    case False
    then have s: "s = ?d" using str_int_cases[OF assms(1)] by simp
    have ns: "CHR ''/'' \<notin> set s" using digits_no_slash[OF d(1)] by (simp add: s)
    have sp: "split_on CHR ''/'' (kind @ CHR ''/'' # s) = [kind, s]"
      using split_on_two[OF assms(2) ns] .
    have dg: "isdigit s" using isdigit_digits[OF d] by (simp add: s)
    show ?thesis using False dg py_int_str_int[OF assms(1)] by (simp add: resource_ref_def sp)
  qed
qed




lemma resource_ref_episode_3: "resource_ref ''episode/3'' = Inr (''episode'', Some 3)"
  by (simp add: resource_ref_def isdigit_def is_unicode_digit_def is_digit_def py_int_def
      is_space_def decimal_value_def int_max_str_digits_def nat_of_digits_def)


lemma world_updates: "w\<lparr>calls := a, trace := b\<rparr> = \<lparr>calls = a, trace = b\<rparr>"
  by (cases w) simp

lemma make_request_200:
  assumes "session cl" "1 \<le> max_retries cl" "resource_ref e = Inr ref"
    "up (calls w) (BASE_URL @ ''/'' @ e) = Response 200 hdr (Json v)"
  shows "make_request cl up e w = (Inr v, http_get (BASE_URL @ ''/'' @ e) w)"
proof -
  define U where "U = BASE_URL @ ''/'' @ e"
  obtain rt rid where r: "ref = (rt, rid)" by (cases ref)
  have m: "make_request cl up e w = retry_loop cl up U rt rid [1..max_retries cl] w"
    using make_request_retry_loop[OF assms(1)] assms(3) r unfolding U_def by blast
  have r: "up (calls w) U = Response 200 hdr (Json v)" using assms(4) by (simp add: U_def)
  show ?thesis
    unfolding m U_def[symmetric] using assms(2)
    by (simp add: upto_step[of 1] attempt_once_200[where up = up and w = w and url = U, OF r])
qed

lemma make_request_404:
  assumes "session cl" "1 \<le> max_retries cl" "resource_ref e = Inr (rt, rid)"
    "up (calls w) (BASE_URL @ ''/'' @ e) = Response 404 hdr bd"
  shows "make_request cl up e w = (Inl (NotFoundError rt rid), http_get (BASE_URL @ ''/'' @ e) w)"
proof -
  define U where "U = BASE_URL @ ''/'' @ e"
  have m: "make_request cl up e w = retry_loop cl up U rt rid [1..max_retries cl] w"
    using make_request_retry_loop[OF assms(1,3)] unfolding U_def by blast
  have r: "up (calls w) U = Response 404 hdr bd" using assms(4) by (simp add: U_def)
  show ?thesis
    unfolding m U_def[symmetric] using assms(2)
    by (simp add: upto_step[of 1] attempt_once_404[where up = up and w = w and url = U, OF r])
qed

lemma page_body_linked:
  assumes "has_results_list d" "links_to d nxt"
  shows "page_body acc (PDict d) = Inr (Next (acc @ results_of d) nxt)"
proof -
  obtain rs where rs: "map_of d ''results'' = Some (PList rs)"
    using assms(1) by (auto simp: has_results_list_def split: option.splits pyval.splits)
  obtain nv where nv: "page_next d = Some nv"
    using assms(2) by (auto simp: links_to_def split: option.splits)
  obtain i where i: "py_get (PDict d) ''info'' (PDict []) = Inr (PDict i)"
      "(case map_of i ''next'' of None \<Rightarrow> PNone | Some v \<Rightarrow> v) = nv"
    using nv by (auto simp: page_next_def py_get_def split: option.splits pyval.splits)
  have n: "py_get (PDict i) ''next'' PNone = Inr nv"
    using i(2) by (simp add: py_get_def)
  have pre: "page_body acc (PDict d) =
      (if truthy nv then (case nv of PStr s \<Rightarrow> Inr (Next (acc @ rs) (Some (py_replace (BASE_URL @ ''/'') [] s)))
                          | _ \<Rightarrow> Inl AttributeError)
       else Inr (Next (acc @ rs) None))"
    by (simp add: page_body_def results_in_def rs py_get_def[of "PDict d" "''results''"] py_extend_def i(1) n)
  have r: "results_of d = rs" by (simp add: results_of_def rs)
  show ?thesis
  proof (cases nxt)
    case None
    then have "\<not> truthy nv" using assms(2) nv by (simp add: links_to_def)
    then show ?thesis by (simp add: pre r None)
  next
    case (Some e)
    then obtain link where l: "nv = PStr link" "link \<noteq> []" "py_replace (BASE_URL @ ''/'') [] link = e"
      using assms(2) nv by (auto simp: links_to_def split: pyval.splits)
    then show ?thesis by (simp add: pre r Some truthy_def)
  qed
qed

lemma fetch_pages_stop: "fetch_pages cl up acc None w = Some (Inr acc, w)"
  "fetch_pages cl up acc (Some []) w = Some (Inr acc, w)"
  by (simp_all add: fetch_pages.simps)

lemma fetch_pages_served:
  assumes "session cl" "1 \<le> max_retries cl" "served up (calls w) ps final" "ps \<noteq> []"
  shows "fetch_pages cl up acc (Some (fst (hd ps))) w =
         fetch_pages cl up (acc @ concat (map (\<lambda>p. results_of (snd p)) ps)) final
           \<lparr>calls = calls w + length ps,
              trace = trace w @ map (\<lambda>p. Get (BASE_URL @ ''/'' @ fst p)) ps\<rparr>"
  using assms(3,4)
proof (induction ps arbitrary: acc w)
  case Nil then show ?case by simp
next
  case (Cons p ps)
  obtain e d where p: "p = (e, d)" by (cases p)
  let ?nxt = "case ps of [] \<Rightarrow> final | (e', d') # rest \<Rightarrow> Some e'"
  let ?w = "http_get (BASE_URL @ ''/'' @ e) w"
  from Cons.prems(1) have e: "e \<noteq> []"
    and hr: "has_results_list d" and lk: "links_to d ?nxt"
    and sv: "served up (Suc (calls w)) ps final"
    by (simp_all add: p)
  from Cons.prems(1) obtain ref where rf: "resource_ref e = Inr ref"
    by (auto simp: p split: sum.splits)
  from Cons.prems(1) obtain hdr where r: "up (calls w) (BASE_URL @ ''/'' @ e) = Response 200 hdr (Json (PDict d))"
    by (auto simp: p split: outcome.splits body.splits pyval.splits)
  have mr: "make_request cl up e w = (Inr (PDict d), ?w)"
    using make_request_200[where up = up and w = w and e = e, OF assms(1,2) rf r] .
  have one: "fetch_pages cl up acc (Some e) w = fetch_pages cl up (acc @ results_of d) ?nxt ?w"
    using e by (subst fetch_pages.simps) (simp add: mr page_body_linked[OF hr lk])
  show ?case
  proof (cases ps)
    case Nil
    then show ?thesis using one by (simp add: p http_get_def world_updates)
  next
    case (Cons q qs)
    obtain e' d' where q: "q = (e', d')" by (cases q)
    have sv': "served up (calls ?w) ps final" using sv by simp
    have ih: "fetch_pages cl up (acc @ results_of d) (Some (fst (hd ps))) ?w =
         fetch_pages cl up ((acc @ results_of d) @ concat (map (\<lambda>p. results_of (snd p)) ps)) final
           \<lparr>calls = calls ?w + length ps,
              trace = trace ?w @ map (\<lambda>p. Get (BASE_URL @ ''/'' @ fst p)) ps\<rparr>"
      using Cons.IH[OF sv'] Cons by simp
    have nx: "?nxt = Some (fst (hd ps))" using Cons q by simp
    show ?thesis
      using one ih unfolding nx by (simp add: p)
  qed
qed

lemma py_replace_absent:
  "old \<noteq> [] \<Longrightarrow> \<not> py_contains old s \<Longrightarrow> py_replace old new s = s"
proof (induction s)
  case Nil then show ?case by (simp add: py_replace.simps[of old new "[]"])
next
  case (Cons c cs)
  then show ?case by (simp add: py_replace.simps[of old new "c # cs"])
qed

lemma py_replace_prefix:
  assumes "old \<noteq> []" "\<not> py_contains old s"
  shows "py_replace old [] (old @ s) = s"
  using assms by (simp add: py_replace.simps[of old "[]" "old @ s"] startswith_def py_replace_absent)

lemma get_all_resources_never_not_found:
  "get_all_resources cl up rt w \<noteq> Some (Inl (NotFoundError t i), w')"
  by (auto simp: get_all_resources_def split: option.splits prod.splits sum.splits error.splits)

lemma fetch_pages_not_found:
  assumes "e \<noteq> []" "fst (make_request cl up e w) = Inl err"
  shows "fetch_pages cl up acc (Some e) w = Some (Inl err, snd (make_request cl up e w))"
  using assms by (subst fetch_pages.simps) (auto split: prod.splits sum.splits)

lemma fetch_pages_no_results:
  assumes "e \<noteq> []" "make_request cl up e w = (Inr (PDict d), w')" "map_of d ''results'' = None"
  shows "fetch_pages cl up acc (Some e) w = Some (Inr acc, w')"
  using assms by (subst fetch_pages.simps) (simp add: page_body_def results_in_def)

text \<open>
  Claim C3, as amended. A 404 raises \<open>NotFoundError\<close> at once, whatever the attempt
  number, with no sleep and no further request. \<open>get_character\<close>, \<open>get_location\<close> and
  \<open>get_episode\<close> raise it after one request with the resource type and, for an id that
  is not negative, the id; for a negative id the error carries the resource type and no
  id. \<open>get_all_resources\<close> whose first page request is answered 404 returns the empty
  list, and it never raises \<open>NotFoundError\<close>.
\<close>

theorem fetch_one_not_found:
  "(up (calls w) url = Response 404 hdr bd \<longrightarrow>
      attempt_once cl up url rt rid a w = (Raise (NotFoundError rt rid), http_get url w))
   \<and> (session cl \<and> 1 \<le> max_retries cl \<and> str_int n = Inr shown
        \<and> up (calls w) (BASE_URL @ ''/'' @ ''character/'' @ shown) = Response 404 hdr bd \<longrightarrow>
      get_character cl up n w =
        (Inl (NotFoundError ''character'' (if 0 \<le> n then Some n else None)),
         http_get (BASE_URL @ ''/'' @ ''character/'' @ shown) w))
   \<and> (session cl \<and> 1 \<le> max_retries cl \<and> str_int n = Inr shown
        \<and> up (calls w) (BASE_URL @ ''/'' @ ''location/'' @ shown) = Response 404 hdr bd \<longrightarrow>
      get_location cl up n w =
        (Inl (NotFoundError ''location'' (if 0 \<le> n then Some n else None)),
         http_get (BASE_URL @ ''/'' @ ''location/'' @ shown) w))
   \<and> (session cl \<and> 1 \<le> max_retries cl \<and> str_int n = Inr shown
        \<and> up (calls w) (BASE_URL @ ''/'' @ ''episode/'' @ shown) = Response 404 hdr bd \<longrightarrow>
      get_episode cl up n w =
        (Inl (NotFoundError ''episode'' (if 0 \<le> n then Some n else None)),
         http_get (BASE_URL @ ''/'' @ ''episode/'' @ shown) w))
   \<and> (session cl \<and> 1 \<le> max_retries cl \<and> resource_type \<noteq> []
        \<and> resource_ref resource_type = Inr ref
        \<and> up (calls w) (BASE_URL @ ''/'' @ resource_type) = Response 404 hdr bd \<longrightarrow>
      get_all_resources cl up resource_type w =
        Some (Inr [], http_get (BASE_URL @ ''/'' @ resource_type) w))
   \<and> get_all_resources cl up resource_type w \<noteq> Some (Inl (NotFoundError t i), w')"
proof -
  have one: "make_request cl up (kind @ ''/'' @ shown) w =
        (Inl (NotFoundError kind (if 0 \<le> n then Some n else None)),
         http_get (BASE_URL @ ''/'' @ kind @ ''/'' @ shown) w)"
    if h: "session cl" "1 \<le> max_retries cl" "str_int n = Inr shown" "CHR ''/'' \<notin> set kind"
      "up (calls w) (BASE_URL @ ''/'' @ kind @ ''/'' @ shown) = Response 404 hdr bd"
    for kind
    using make_request_404[where up = up and w = w and e = "kind @ ''/'' @ shown" and cl = cl,
        OF h(1,2) fetch_one_ref[OF h(3,4)] h(5)] .
  have step: "up (calls w) url = Response 404 hdr bd \<longrightarrow>
      attempt_once cl up url rt rid a w = (Raise (NotFoundError rt rid), http_get url w)"
    using attempt_once_404[where up = up and w = w and url = url] by blast
  have ch: "session cl \<and> 1 \<le> max_retries cl \<and> str_int n = Inr shown
        \<and> up (calls w) (BASE_URL @ ''/'' @ ''character/'' @ shown) = Response 404 hdr bd \<longrightarrow>
      get_character cl up n w =
        (Inl (NotFoundError ''character'' (if 0 \<le> n then Some n else None)),
         http_get (BASE_URL @ ''/'' @ ''character/'' @ shown) w)"
    using one[of "''character''"] by (simp add: get_character_def)
  have lo: "session cl \<and> 1 \<le> max_retries cl \<and> str_int n = Inr shown
        \<and> up (calls w) (BASE_URL @ ''/'' @ ''location/'' @ shown) = Response 404 hdr bd \<longrightarrow>
      get_location cl up n w =
        (Inl (NotFoundError ''location'' (if 0 \<le> n then Some n else None)),
         http_get (BASE_URL @ ''/'' @ ''location/'' @ shown) w)"
    using one[of "''location''"] by (simp add: get_location_def)
  have ep: "session cl \<and> 1 \<le> max_retries cl \<and> str_int n = Inr shown
        \<and> up (calls w) (BASE_URL @ ''/'' @ ''episode/'' @ shown) = Response 404 hdr bd \<longrightarrow>
      get_episode cl up n w =
        (Inl (NotFoundError ''episode'' (if 0 \<le> n then Some n else None)),
         http_get (BASE_URL @ ''/'' @ ''episode/'' @ shown) w)"
    using one[of "''episode''"] by (simp add: get_episode_def)
  have all: "session cl \<and> 1 \<le> max_retries cl \<and> resource_type \<noteq> []
        \<and> resource_ref resource_type = Inr ref
        \<and> up (calls w) (BASE_URL @ ''/'' @ resource_type) = Response 404 hdr bd \<longrightarrow>
      get_all_resources cl up resource_type w =
        Some (Inr [], http_get (BASE_URL @ ''/'' @ resource_type) w)"
  proof
    assume h: "session cl \<and> 1 \<le> max_retries cl \<and> resource_type \<noteq> []
        \<and> resource_ref resource_type = Inr ref
        \<and> up (calls w) (BASE_URL @ ''/'' @ resource_type) = Response 404 hdr bd"
    obtain rt' rid' where r: "ref = (rt', rid')" by (cases ref)
    have m: "make_request cl up resource_type w =
        (Inl (NotFoundError rt' rid'), http_get (BASE_URL @ ''/'' @ resource_type) w)"
      using make_request_404[where up = up and w = w and e = resource_type and cl = cl
          and rt = rt' and rid = rid'] h r by blast
    have "fetch_pages cl up [] (Some resource_type) w =
        Some (Inl (NotFoundError rt' rid'), http_get (BASE_URL @ ''/'' @ resource_type) w)"
      using fetch_pages_not_found[where e = resource_type and cl = cl and up = up and w = w
          and err = "NotFoundError rt' rid'" and acc = "[]"] h m by simp
    then show "get_all_resources cl up resource_type w =
        Some (Inr [], http_get (BASE_URL @ ''/'' @ resource_type) w)"
      by (simp add: get_all_resources_def)
  qed
  show ?thesis
    using step ch lo ep all get_all_resources_never_not_found by blast
qed

lemma resource_ref_character: "resource_ref ''character'' = Inr (''character'', None)"
  by (simp add: resource_ref_def)

theorem fetch_one_not_found_witness:
  "attempt_once default_client (scripted [Response 404 None BodyValueError])
       (BASE_URL @ ''/'' @ ''character/999'') ''character'' (Some 999) 1 world0
     = (Raise (NotFoundError ''character'' (Some 999)),
        http_get (BASE_URL @ ''/'' @ ''character/999'') world0)
   \<and> get_character default_client (scripted [Response 404 None BodyValueError]) 999 world0
     = (Inl (NotFoundError ''character'' (Some 999)),
        \<lparr>calls = 1, trace = [Get (BASE_URL @ ''/'' @ ''character/999'')]\<rparr>)
   \<and> get_location default_client (scripted [Response 404 None BodyValueError]) 999 world0
     = (Inl (NotFoundError ''location'' (Some 999)),
        \<lparr>calls = 1, trace = [Get (BASE_URL @ ''/'' @ ''location/999'')]\<rparr>)
   \<and> get_episode default_client (scripted [Response 404 None BodyValueError]) 999 world0
     = (Inl (NotFoundError ''episode'' (Some 999)),
        \<lparr>calls = 1, trace = [Get (BASE_URL @ ''/'' @ ''episode/999'')]\<rparr>)
   \<and> get_episode default_client (scripted [Response 404 None BodyValueError]) (- 7) world0
     = (Inl (NotFoundError ''episode'' None),
        \<lparr>calls = 1, trace = [Get (BASE_URL @ ''/'' @ ''episode/-7'')]\<rparr>)
   \<and> get_all_resources default_client (scripted [Response 404 None BodyValueError]) ''character'' world0
     = Some (Inr [], \<lparr>calls = 1, trace = [Get (BASE_URL @ ''/'' @ ''character'')]\<rparr>)"
proof -
  let ?up = "scripted [Response 404 None BodyValueError]"
  have s: "str_int 999 = Inr ''999''"
    by (simp add: str_int_def Let_def show_nat.simps digit_char_def int_max_str_digits_def)
  have s': "str_int (- 7) = Inr ''-7''"
    by (simp add: str_int_def Let_def show_nat.simps digit_char_def int_max_str_digits_def)
  have c: "session default_client \<and> 1 \<le> max_retries default_client"
    by (simp add: default_client_def)
  have r: "?up (calls world0) u = Response 404 None BodyValueError" for u
    by (simp add: scripted_def world0_def)
  have ne: "''character'' \<noteq> []" by simp
  have p0: "attempt_once default_client ?up (BASE_URL @ ''/'' @ ''character/999'') ''character'' (Some 999) 1 world0
     = (Raise (NotFoundError ''character'' (Some 999)), http_get (BASE_URL @ ''/'' @ ''character/999'') world0)"
    using fetch_one_not_found[where up = ?up and w = world0 and url = "BASE_URL @ ''/'' @ ''character/999''"
        and hdr = None and bd = BodyValueError and cl = default_client and rt = "''character''"
        and rid = "Some 999" and a = 1] r
    by blast
  have p1: "get_character default_client ?up 999 world0
     = (Inl (NotFoundError ''character'' (Some 999)),
        \<lparr>calls = 1, trace = [Get (BASE_URL @ ''/'' @ ''character/999'')]\<rparr>)"
    using fetch_one_not_found[where up = ?up and w = world0 and n = 999 and shown = "''999''"
        and hdr = None and bd = BodyValueError and cl = default_client] r c s
    by (simp add: http_get_def world0_def)
  have p2: "get_location default_client ?up 999 world0
     = (Inl (NotFoundError ''location'' (Some 999)),
        \<lparr>calls = 1, trace = [Get (BASE_URL @ ''/'' @ ''location/999'')]\<rparr>)"
    using fetch_one_not_found[where up = ?up and w = world0 and n = 999 and shown = "''999''"
        and hdr = None and bd = BodyValueError and cl = default_client] r c s
    by (simp add: http_get_def world0_def)
  have p3: "get_episode default_client ?up 999 world0
     = (Inl (NotFoundError ''episode'' (Some 999)),
        \<lparr>calls = 1, trace = [Get (BASE_URL @ ''/'' @ ''episode/999'')]\<rparr>)"
    using fetch_one_not_found[where up = ?up and w = world0 and n = 999 and shown = "''999''"
        and hdr = None and bd = BodyValueError and cl = default_client] r c s
    by (simp add: http_get_def world0_def)
  have p5: "get_episode default_client ?up (- 7) world0
     = (Inl (NotFoundError ''episode'' None),
        \<lparr>calls = 1, trace = [Get (BASE_URL @ ''/'' @ ''episode/-7'')]\<rparr>)"
    using fetch_one_not_found[where up = ?up and w = world0 and n = "- 7" and shown = "''-7''"
        and hdr = None and bd = BodyValueError and cl = default_client] r c s'
    by (simp add: http_get_def world0_def)
  have p4: "get_all_resources default_client ?up ''character'' world0
     = Some (Inr [], \<lparr>calls = 1, trace = [Get (BASE_URL @ ''/'' @ ''character'')]\<rparr>)"
    using fetch_one_not_found[where up = ?up and w = world0 and resource_type = "''character''"
        and ref = "(''character'', None)"
        and hdr = None and bd = BodyValueError and cl = default_client] r c ne resource_ref_character
    by (simp add: http_get_def world0_def)
  show ?thesis using p0 p1 p2 p3 p5 p4 by blast
qed

text \<open>
  The claim as stated fails for a negative id: the text \<open>-1\<close> does not satisfy \<open>isdigit\<close>,
  so the error for id -1 carries the resource type and no id.
\<close>

theorem fetch_one_not_found_counterexample:
  "get_character default_client (scripted [Response 404 None BodyValueError]) (- 1) world0
     = (Inl (NotFoundError ''character'' None),
        \<lparr>calls = 1, trace = [Get (BASE_URL @ ''/'' @ ''character/-1'')]\<rparr>)"
proof -
  have s: "str_int (- 1) = Inr ''-1''"
    by (simp add: str_int_def Let_def show_nat.simps digit_char_def int_max_str_digits_def)
  have r: "resource_ref ''character/-1'' = Inr (''character'', None)"
    by (simp add: resource_ref_def isdigit_def is_unicode_digit_def is_digit_def)
  show ?thesis
    by (simp add: get_character_def s make_request_def r default_client_def Let_def upto.simps
        attempt_once_def scripted_def world0_def http_get_def)
qed




text \<open>
  Claim C9. When at least one page has been fetched and the request for the following
  page ends in \<open>NotFoundError\<close> (a 404 on its first attempt in particular),
  \<open>get_all_resources\<close> returns the empty list: the results of the earlier pages are
  dropped. The endpoints are ones that \<open>_make_request\<close> sends requests for.
\<close>

theorem not_found_discards_pages:
  "(session cl \<and> 1 \<le> max_retries cl \<and> ps \<noteq> [] \<and> served up (calls w) ps (Some e) \<and> e \<noteq> []
      \<and> fst (make_request cl up e
               \<lparr>calls = calls w + length ps,
                  trace = trace w @ map (\<lambda>p. Get (BASE_URL @ ''/'' @ fst p)) ps\<rparr>)
          = Inl (NotFoundError t i) \<longrightarrow>
      get_all_resources cl up (fst (hd ps)) w =
        Some (Inr [],
              snd (make_request cl up e
                    \<lparr>calls = calls w + length ps,
                       trace = trace w @ map (\<lambda>p. Get (BASE_URL @ ''/'' @ fst p)) ps\<rparr>)))
   \<and> (session cl \<and> 1 \<le> max_retries cl \<and> ps \<noteq> [] \<and> served up (calls w) ps (Some e) \<and> e \<noteq> []
      \<and> resource_ref e = Inr ref
      \<and> up (calls w + length ps) (BASE_URL @ ''/'' @ e) = Response 404 hdr bd \<longrightarrow>
      get_all_resources cl up (fst (hd ps)) w =
        Some (Inr [],
              \<lparr>calls = calls w + length ps + 1,
                 trace = trace w @ map (\<lambda>p. Get (BASE_URL @ ''/'' @ fst p)) ps
                           @ [Get (BASE_URL @ ''/'' @ e)]\<rparr>))"
proof -
  let ?W = "\<lparr>calls = calls w + length ps,
             trace = trace w @ map (\<lambda>p. Get (BASE_URL @ ''/'' @ fst p)) ps\<rparr>"
  let ?acc = "concat (map (\<lambda>p. results_of (snd p)) ps)"
  have A: "get_all_resources cl up (fst (hd ps)) w = Some (Inr [], snd (make_request cl up e ?W))"
    if h: "session cl" "1 \<le> max_retries cl" "ps \<noteq> []" "served up (calls w) ps (Some e)" "e \<noteq> []"
      "fst (make_request cl up e ?W) = Inl (NotFoundError t' i')" for t' i'
  proof -
    have "fetch_pages cl up [] (Some (fst (hd ps))) w = fetch_pages cl up ([] @ ?acc) (Some e) ?W"
      using fetch_pages_served[OF h(1,2,4,3)] .
    also have "\<dots> = Some (Inl (NotFoundError t' i'), snd (make_request cl up e ?W))"
      using fetch_pages_not_found[OF h(5,6)] .
    finally show ?thesis by (simp add: get_all_resources_def)
  qed
  have B: "get_all_resources cl up (fst (hd ps)) w =
        Some (Inr [],
              \<lparr>calls = calls w + length ps + 1,
                 trace = trace w @ map (\<lambda>p. Get (BASE_URL @ ''/'' @ fst p)) ps
                           @ [Get (BASE_URL @ ''/'' @ e)]\<rparr>)"
    if h: "session cl" "1 \<le> max_retries cl" "ps \<noteq> []" "served up (calls w) ps (Some e)" "e \<noteq> []"
      "up (calls w + length ps) (BASE_URL @ ''/'' @ e) = Response 404 hdr bd"
      "resource_ref e = Inr ref"
  proof -
    have r: "up (calls ?W) (BASE_URL @ ''/'' @ e) = Response 404 hdr bd" using h(6) by simp
    obtain rt rid where rf: "ref = (rt, rid)" by (cases ref)
    have m: "make_request cl up e ?W =
        (Inl (NotFoundError rt rid), http_get (BASE_URL @ ''/'' @ e) ?W)"
      using make_request_404[where up = up and w = ?W and e = e and cl = cl and rt = rt and rid = rid,
          OF h(1,2) _ r] h(7) rf by blast
    show ?thesis
      using A[OF h(1-5), of rt rid] m by (simp add: http_get_def)
  qed
  show ?thesis using A B by blast
qed

theorem not_found_discards_pages_witness:
  "get_all_resources default_client
      (scripted
        [Response 200 None (Json (page_json [PInt 1, PInt 2] (PStr (BASE_URL @ ''/'' @ ''character?page=2'')))),
         Response 404 None (Json (PDict [(''error'', PStr ''There is nothing here'')]))])
      ''character'' world0
    = Some (Inr [],
            \<lparr>calls = 2,
               trace = [Get (BASE_URL @ ''/'' @ ''character''),
                        Get (BASE_URL @ ''/'' @ ''character?page=2'')]\<rparr>)
   \<and> results_of [(''info'', PDict [(''next'', PStr (BASE_URL @ ''/'' @ ''character?page=2''))]),
                  (''results'', PList [PInt 1, PInt 2])] = [PInt 1, PInt 2]"
proof -
  let ?up = "scripted
        [Response 200 None (Json (page_json [PInt 1, PInt 2] (PStr (BASE_URL @ ''/'' @ ''character?page=2'')))),
         Response 404 None (Json (PDict [(''error'', PStr ''There is nothing here'')]))]"
  let ?ps = "[(''character'', [(''info'', PDict [(''next'', PStr (BASE_URL @ ''/'' @ ''character?page=2''))]), (''results'', PList [PInt 1, PInt 2])])]"
  have base: "BASE_URL @ ''/'' \<noteq> []" by simp
  have nc: "\<not> py_contains (BASE_URL @ ''/'') ''character?page=2''"
    by (simp add: BASE_URL_def startswith_def)
  have lk2: "py_replace (BASE_URL @ ''/'') [] (BASE_URL @ ''/'' @ ''character?page=2'') = ''character?page=2''"
    using py_replace_prefix[OF base nc] by simp
  have c: "session default_client \<and> 1 \<le> max_retries default_client"
    by (simp add: default_client_def)
  have sv: "?ps \<noteq> [] \<and> served ?up (calls world0) ?ps (Some ''character?page=2'') \<and> ''character?page=2'' \<noteq> []
        \<and> resource_ref ''character?page=2'' = Inr (''character?page=2'', None)
        \<and> ?up (calls world0 + length ?ps) (BASE_URL @ ''/'' @ ''character?page=2'')
            = Response 404 None (Json (PDict [(''error'', PStr ''There is nothing here'')]))"
    using lk2
    by (simp add: scripted_def world0_def page_json_def has_results_list_def links_to_def
        page_next_def truthy_def resource_ref_def)
  have p1: "get_all_resources default_client ?up ''character'' world0
    = Some (Inr [],
            \<lparr>calls = 2,
               trace = [Get (BASE_URL @ ''/'' @ ''character''),
                        Get (BASE_URL @ ''/'' @ ''character?page=2'')]\<rparr>)"
    using not_found_discards_pages[where cl = default_client and up = ?up and ps = ?ps and w = world0
        and e = "''character?page=2''" and ref = "(''character?page=2'', None)" and hdr = None
        and bd = "Json (PDict [(''error'', PStr ''There is nothing here'')])"] c sv
    by (simp add: world0_def)
  have nf: "fst (make_request default_client ?up ''character?page=2''
               \<lparr>calls = calls world0 + length ?ps,
                  trace = trace world0 @ map (\<lambda>p. Get (BASE_URL @ ''/'' @ fst p)) ?ps\<rparr>)
          = Inl (NotFoundError ''character?page=2'' None)"
    by (simp add: make_request_def resource_ref_def default_client_def Let_def upto.simps
        attempt_once_def scripted_def world0_def)
  have p1': "get_all_resources default_client ?up ''character'' world0
    = Some (Inr [],
            snd (make_request default_client ?up ''character?page=2''
               \<lparr>calls = calls world0 + length ?ps,
                  trace = trace world0 @ map (\<lambda>p. Get (BASE_URL @ ''/'' @ fst p)) ?ps\<rparr>))"
    using not_found_discards_pages[where cl = default_client and up = ?up and ps = ?ps and w = world0
        and e = "''character?page=2''" and t = "''character?page=2''" and i = None] c sv nf
    by simp
  have p2: "results_of [(''info'', PDict [(''next'', PStr (BASE_URL @ ''/'' @ ''character?page=2''))]),
                  (''results'', PList [PInt 1, PInt 2])] = [PInt 1, PInt 2]"
    by (simp add: results_of_def)
  show ?thesis using p1 p1' p2 by blast
qed

lemma split_on_append_sep:
  "sep \<notin> set p \<Longrightarrow> split_on sep (p @ sep # rest) = p # split_on sep rest"
  by (induction p) (auto split: list.splits)

lemma split_on_join:
  "pieces \<noteq> [] \<Longrightarrow> \<forall>p\<in>set pieces. sep \<notin> set p \<Longrightarrow> split_on sep (join [sep] pieces) = pieces"
proof (induction "[sep]" pieces rule: join.induct)
  case 1 then show ?case by simp
next
  case (2 x) then show ?case by (simp add: split_on_no_sep)
next
  case (3 x y rest)
  then show ?case by (simp add: split_on_append_sep)
qed

lemma join_empty_iff: "(join [sep] pieces = []) = (pieces = [] \<or> pieces = [[]])"
  by (induction "[sep]" pieces rule: join.induct) auto

lemma takeWhile_key: "CHR ''='' \<notin> set k \<Longrightarrow> takeWhile (\<lambda>c. c \<noteq> CHR ''='') (k @ CHR ''='' # s) = k"
  by (induction k) auto

lemma piece_inj:
  assumes "k @ CHR ''='' # s = k' @ CHR ''='' # s'" "CHR ''='' \<notin> set k" "CHR ''='' \<notin> set k'"
  shows "k = k' \<and> s = s'"
proof -
  have "takeWhile (\<lambda>c. c \<noteq> CHR ''='') (k @ CHR ''='' # s)
      = takeWhile (\<lambda>c. c \<noteq> CHR ''='') (k' @ CHR ''='' # s')"
    using assms(1) by simp
  then have k: "k = k'" using assms(2,3) by (simp add: takeWhile_key)
  then show ?thesis using assms(1) by simp
qed

lemma query_pieces_rendered:
  "query_pieces fs = Inr ps \<Longrightarrow> ps = map (\<lambda>(k, s). k @ ''='' @ s) (rendered_entries fs)"
proof (induction fs arbitrary: ps rule: query_pieces.induct)
  case 1 then show ?case by simp
next
  case (2 k v rest)
  then show ?case by (auto split: if_splits sum.splits)
qed

lemma characters_endpoint_pieces:
  assumes "query_pieces fs = Inr ps"
  shows "characters_endpoint (Some fs)
           = Inr (if ps = [] then ''character'' else ''character'' @ ''/?'' @ join ''&'' ps)"
proof -
  have ne: "\<forall>p\<in>set ps. p \<noteq> []"
    using query_pieces_rendered[OF assms] by auto
  have j: "(join ''&'' ps = []) = (ps = [])"
    using join_empty_iff[of "CHR ''&''" ps] ne by auto
  have e: "fs = [] \<Longrightarrow> ps = []" using assms by simp
  show ?thesis
    using j e by (auto simp: characters_endpoint_def query_params_def assms)
qed

lemma characters_endpoint_Inr:
  assumes "characters_endpoint (Some fs) = Inr ep"
  shows "\<exists>ps. query_pieces fs = Inr ps"
proof (cases "query_pieces fs")
  case (Inl e)
  then have "fs \<noteq> []" by auto
  then show ?thesis using assms Inl by (simp add: characters_endpoint_def query_params_def)
next
  case (Inr ps) then show ?thesis by blast
qed




end
